theory Spec2Isabelle
  imports Main
begin

section \<open>The configuration patcher of \<open>infrastructure/zk/src/init.ts\<close>\<close>

text \<open>
  The development embeds \<open>updateConfigFile\<close>, the routine that edits a TOML-like
  configuration file line by line. A JavaScript string is a sequence of UTF-16 code
  units: a code unit is a natural number (below 65536) and a string is a list of code
  units. A file holds bytes, natural numbers below 256. Line indices are natural numbers.
\<close>

type_synonym jstring = "nat list"

text \<open>The code units of a text written in ASCII.\<close>

definition str :: "string \<Rightarrow> jstring" where
  "str s = map of_char s"

abbreviation (input) chr_newline :: nat where "chr_newline \<equiv> 0x0A"
abbreviation (input) chr_hash :: nat where "chr_hash \<equiv> 0x23"
abbreviation (input) chr_equals :: nat where "chr_equals \<equiv> 0x3D"
abbreviation (input) chr_open_bracket :: nat where "chr_open_bracket \<equiv> 0x5B"
abbreviation (input) chr_close_bracket :: nat where "chr_close_bracket \<equiv> 0x5D"

subsection \<open>Strings\<close>

text \<open>
  The code units that \<open>String.prototype.trim\<close> strips and that \<open>\s\<close> matches: the
  white space and the line terminators of ECMAScript (tab, line feed, vertical tab, form
  feed, carriage return, space, no-break space, the space separators of Unicode, the
  line and paragraph separators, and the byte order mark).
\<close>

definition is_space :: "nat \<Rightarrow> bool" where
  "is_space c =
     (c \<in> set [0x09, 0x0A, 0x0B, 0x0C, 0x0D, 0x20, 0xA0, 0x1680,
               0x2000, 0x2001, 0x2002, 0x2003, 0x2004, 0x2005, 0x2006, 0x2007, 0x2008,
               0x2009, 0x200A, 0x2028, 0x2029, 0x202F, 0x205F, 0x3000, 0xFEFF])"

definition trim :: "jstring \<Rightarrow> jstring" where
  "trim s = rev (dropWhile is_space (rev (dropWhile is_space s)))"

text \<open>\<open>content.split('\n')\<close>: the empty text gives one empty line.\<close>

fun split_newline :: "jstring \<Rightarrow> jstring list" where
  "split_newline [] = [[]]"
| "split_newline (c # cs) =
     (if c = chr_newline then [] # split_newline cs
      else (case split_newline cs of
              [] \<Rightarrow> [[c]]
            | l # ls \<Rightarrow> (c # l) # ls))"

text \<open>\<open>lines.join('\n')\<close>.\<close>

fun join_newline :: "jstring list \<Rightarrow> jstring" where
  "join_newline [] = []"
| "join_newline [l] = l"
| "join_newline (l # m # ls) = l @ chr_newline # join_newline (m # ls)"

text \<open>\<open>line.startsWith(p)\<close>.\<close>

definition startsWith :: "jstring \<Rightarrow> jstring \<Rightarrow> bool" where
  "startsWith line p = (take (length p) line = p)"

text \<open>
  \<open>line.match(/^\s*\[([^\]]+)\]\s*$/)\<close>, giving the first capture group. Neither
  \<open>[\<close> nor \<open>]\<close> is white space and the group excludes \<open>]\<close>, so the match is
  determined: leading white space, \<open>[\<close>, the non-empty run of characters up to the
  first \<open>]\<close>, that \<open>]\<close>, and white space only up to the end of the line.
\<close>

definition sectionMatch :: "jstring \<Rightarrow> jstring option" where
  "sectionMatch line =
     (case dropWhile is_space line of
        [] \<Rightarrow> None
      | c # rest \<Rightarrow>
          if c = chr_open_bracket then
            (let name = takeWhile (\<lambda>x. x \<noteq> chr_close_bracket) rest;
                 after = dropWhile (\<lambda>x. x \<noteq> chr_close_bracket) rest
             in if name \<noteq> [] \<and> after \<noteq> [] \<and> list_all is_space (tl after)
                then Some name else None)
          else None)"

text \<open>
  \<open>line.match(/([^=]+)=(.*)/)\<close>, giving the first capture group. The pattern is not
  anchored, so the leftmost match is taken: a match cannot start on \<open>=\<close>, and from the
  first other character the greedy group runs to the next \<open>=\<close>, which must exist.
\<close>

definition keyMatch :: "jstring \<Rightarrow> jstring option" where
  "keyMatch line =
     (let s = dropWhile (\<lambda>x. x = chr_equals) line;
          k = takeWhile (\<lambda>x. x \<noteq> chr_equals) s;
          rest = dropWhile (\<lambda>x. x \<noteq> chr_equals) s
      in if rest \<noteq> [] then Some k else None)"

subsection \<open>Arrays and objects of JavaScript\<close>

text \<open>
  \<open>xs.splice(start, deleteCount, ...items)\<close> for a start that is a natural number:
  both the start and the number of deleted elements are clamped to the array, as
  \<open>take\<close> and \<open>drop\<close> are.
\<close>

definition js_splice :: "nat \<Rightarrow> nat \<Rightarrow> 'a list \<Rightarrow> 'a list \<Rightarrow> 'a list" where
  "js_splice start deleteCount items xs = take start xs @ items @ drop (start + deleteCount) xs"

text \<open>
  \<open>lineIndices\<close> and \<open>sectionIndices\<close> are objects made by the literal \<open>{}\<close>. Their
  own properties are a partial map from names to indices. A property read that finds no
  own property continues in \<open>Object.prototype\<close>, so for the names below it yields an
  inherited function or object instead of \<open>undefined\<close>.
\<close>

type_synonym js_record = "jstring \<rightharpoonup> nat"

datatype js_lookup = Undefined | Index nat | Inherited

definition object_prototype_names :: "jstring list" where
  "object_prototype_names =
     map str
      [''constructor'', ''hasOwnProperty'', ''isPrototypeOf'', ''propertyIsEnumerable'',
       ''toLocaleString'', ''toString'', ''valueOf'', ''__proto__'',
       ''__defineGetter__'', ''__defineSetter__'', ''__lookupGetter__'', ''__lookupSetter__'']"

definition get_property :: "js_record \<Rightarrow> jstring \<Rightarrow> js_lookup" where
  "get_property m k =
     (case m k of
        Some i \<Rightarrow> Index i
      | None \<Rightarrow> if k \<in> set object_prototype_names then Inherited else Undefined)"

text \<open>
  \<open>m[k] = i\<close>. For \<open>__proto__\<close> the assignment runs the inherited setter, which
  ignores a number; any other name becomes an own property.
\<close>

definition set_property :: "js_record \<Rightarrow> jstring \<Rightarrow> nat \<Rightarrow> js_record" where
  "set_property m k i = (if k = str ''__proto__'' then m else m(k \<mapsto> i))"

text \<open>
  The property name of \<open>sectionIndices[configLine.section!]\<close>: the non-null assertion
  is erased by the compiler, and \<open>null\<close> as a property name is the string \<open>null\<close>.
\<close>

definition property_key :: "jstring option \<Rightarrow> jstring" where
  "property_key s = (case s of None \<Rightarrow> str ''null'' | Some n \<Rightarrow> n)"

text \<open>
  The start argument of \<open>splice\<close> goes through \<open>ToIntegerOrInfinity\<close>: an inherited
  function or object converts to \<open>NaN\<close> and then to 0. In \<open>sectionIndex + 1\<close> such a
  value makes a string, which converts to 0 likewise.
\<close>

definition to_integer :: "js_lookup \<Rightarrow> nat" where
  "to_integer v = (case v of Index i \<Rightarrow> i | _ \<Rightarrow> 0)"

definition plus_one_to_integer :: "js_lookup \<Rightarrow> nat" where
  "plus_one_to_integer v = (case v of Index i \<Rightarrow> i + 1 | _ \<Rightarrow> 0)"

text \<open>\<open>index > v\<close>: a comparison with \<open>NaN\<close> is false.\<close>

definition js_gt :: "nat \<Rightarrow> js_lookup \<Rightarrow> bool" where
  "js_gt index v = (case v of Index j \<Rightarrow> j < index | _ \<Rightarrow> False)"

text \<open>
  \<open>Object.entries(m).filter(([k, index]) => index > v).forEach(([k, index]) => { m[k] = f(index) })\<close>:
  the entries are a snapshot of the own properties, so every entry is updated from its
  own old value.
\<close>

definition shift_entries :: "js_lookup \<Rightarrow> (nat \<Rightarrow> nat) \<Rightarrow> js_record \<Rightarrow> js_record" where
  "shift_entries v f m =
     (\<lambda>k. case m k of None \<Rightarrow> None | Some index \<Rightarrow> Some (if js_gt index v then f index else index))"

subsection \<open>Edits and the state of one run\<close>

text \<open>
  \<open>ConfigLine\<close>: the fields \<open>key\<close>, \<open>value\<close> and \<open>section\<close> (the optional
  \<open>lineIndex\<close> is never read). A value is a string, a number or \<open>null\<close>; the type of
  numbers and their conversion to a string are parameters.
\<close>

datatype 'n config_value = VString jstring | VNumber 'n | VNull

record 'n ConfigLine =
  cl_key :: jstring
  cl_value :: "'n config_value"
  cl_section :: "jstring option"

text \<open>A value inside a template literal.\<close>

definition template_value :: "('n \<Rightarrow> jstring) \<Rightarrow> 'n config_value \<Rightarrow> jstring" where
  "template_value shw v = (case v of VString s \<Rightarrow> s | VNumber n \<Rightarrow> shw n | VNull \<Rightarrow> str ''null'')"

text \<open>\<open>`${configLine.key}=${configLine.value}`\<close>.\<close>

definition key_value_line :: "('n \<Rightarrow> jstring) \<Rightarrow> 'n ConfigLine \<Rightarrow> jstring" where
  "key_value_line shw cl = cl_key cl @ [chr_equals] @ template_value shw (cl_value cl)"

record patch_state =
  lines :: "jstring list"
  addedContent :: "jstring option"
  lineIndices :: js_record
  sectionIndices :: js_record

subsection \<open>The initial scan\<close>

text \<open>The body of the first loop, at line \<open>i\<close>.\<close>

definition scan_line :: "nat \<Rightarrow> jstring \<Rightarrow> js_record \<times> js_record \<Rightarrow> js_record \<times> js_record" where
  "scan_line i line acc =
     (if \<not> startsWith line [chr_hash] then
        (let sectionIndices1 =
               (case sectionMatch line of
                  Some name \<Rightarrow> set_property (snd acc) (trim name) i
                | None \<Rightarrow> snd acc);
             lineIndices1 =
               (case keyMatch line of
                  Some k \<Rightarrow> set_property (fst acc) (trim k) i
                | None \<Rightarrow> fst acc)
         in (lineIndices1, sectionIndices1))
      else acc)"

text \<open>The first loop, from line \<open>i\<close> on.\<close>

fun scan_from :: "nat \<Rightarrow> jstring list \<Rightarrow> js_record \<times> js_record \<Rightarrow> js_record \<times> js_record" where
  "scan_from i [] acc = acc"
| "scan_from i (line # rest) acc = scan_from (Suc i) rest (scan_line i line acc)"

text \<open>The state before the first edit.\<close>

definition initial_state :: "jstring \<Rightarrow> patch_state" where
  "initial_state content =
     (let ls = split_newline content;
          idx = scan_from 0 ls (Map.empty, Map.empty)
      in \<lparr>lines = ls, addedContent = None, lineIndices = fst idx, sectionIndices = snd idx\<rparr>)"

subsection \<open>One edit, the batch and the output\<close>

text \<open>The body of \<open>updatedConfigLines.forEach\<close>.\<close>

definition apply_config_line :: "('n \<Rightarrow> jstring) \<Rightarrow> 'n ConfigLine \<Rightarrow> patch_state \<Rightarrow> patch_state" where
  "apply_config_line shw configLine st =
     (let lineIndex = get_property (lineIndices st) (cl_key configLine);
          sectionIndex = get_property (sectionIndices st) (property_key (cl_section configLine))
      in if lineIndex \<noteq> Undefined then
           (if cl_value configLine \<noteq> VNull then
              st\<lparr>lines := js_splice (to_integer lineIndex) 1 [key_value_line shw configLine] (lines st)\<rparr>
            else
              st\<lparr>lines := js_splice (to_integer lineIndex) 1 [] (lines st),
                 lineIndices := shift_entries lineIndex (\<lambda>index. index - 1) (lineIndices st),
                 sectionIndices := shift_entries lineIndex (\<lambda>index. index - 1) (sectionIndices st)\<rparr>)
         else
           (if cl_value configLine \<noteq> VNull then
              (if sectionIndex \<noteq> Undefined then
                 st\<lparr>lines := js_splice (plus_one_to_integer sectionIndex) 0
                                [key_value_line shw configLine] (lines st),
                    lineIndices := shift_entries sectionIndex (\<lambda>index. index + 1) (lineIndices st),
                    sectionIndices := shift_entries sectionIndex (\<lambda>index. index + 1) (sectionIndices st)\<rparr>
               else
                 st\<lparr>addedContent := Some (key_value_line shw configLine @ [chr_newline])\<rparr>)
            else st))"

text \<open>The edits in order.\<close>

definition apply_config_lines :: "('n \<Rightarrow> jstring) \<Rightarrow> 'n ConfigLine list \<Rightarrow> patch_state \<Rightarrow> patch_state" where
  "apply_config_lines shw updatedConfigLines st = fold (apply_config_line shw) updatedConfigLines st"

text \<open>
  The text that is written: the joined lines, followed by \<open>addedContent\<close> when it is
  truthy (defined and not the empty string).
\<close>

definition final_content :: "patch_state \<Rightarrow> jstring" where
  "final_content st =
     (let content = join_newline (lines st)
      in case addedContent st of
           None \<Rightarrow> content
         | Some added \<Rightarrow> if added \<noteq> [] then content @ added else content)"

text \<open>From the text read to the text written.\<close>

definition updateConfigContent :: "('n \<Rightarrow> jstring) \<Rightarrow> jstring \<Rightarrow> 'n ConfigLine list \<Rightarrow> jstring" where
  "updateConfigContent shw content updatedConfigLines =
     final_content (apply_config_lines shw updatedConfigLines (initial_state content))"

subsection \<open>Files as bytes\<close>

text \<open>
  \<open>readFileSync(path, 'utf-8')\<close> decodes the bytes of the file as UTF-8 and
  \<open>writeFileSync(path, content)\<close> encodes the string as UTF-8.

  The decoder replaces every maximal ill-formed part of the input by the code unit
  \<open>U+FFFD\<close> and goes on with the byte that ended the part. After a lead byte the first
  continuation byte is restricted further for the leads \<open>E0\<close>, \<open>ED\<close>, \<open>F0\<close> and
  \<open>F4\<close> (no overlong forms, no surrogates, nothing above \<open>U+10FFFF\<close>). A byte order
  mark is kept.
\<close>

definition continuation :: "nat \<Rightarrow> bool" where
  "continuation b = (0x80 \<le> b \<and> b \<le> 0xBF)"

definition second_byte_ok :: "nat \<Rightarrow> nat \<Rightarrow> bool" where
  "second_byte_ok lead b =
     (if lead = 0xE0 then 0xA0 \<le> b \<and> b \<le> 0xBF
      else if lead = 0xED then 0x80 \<le> b \<and> b \<le> 0x9F
      else if lead = 0xF0 then 0x90 \<le> b \<and> b \<le> 0xBF
      else if lead = 0xF4 then 0x80 \<le> b \<and> b \<le> 0x8F
      else 0x80 \<le> b \<and> b \<le> 0xBF)"

text \<open>A code point as UTF-16: one code unit, or a surrogate pair from \<open>U+10000\<close> on.\<close>

definition code_point_units :: "nat \<Rightarrow> jstring" where
  "code_point_units cp =
     (if cp < 0x10000 then [cp]
      else [0xD800 + (cp - 0x10000) div 0x400, 0xDC00 + (cp - 0x10000) mod 0x400])"

fun utf8_decode :: "nat list \<Rightarrow> jstring" where
  "utf8_decode [] = []"
| "utf8_decode (b # bs) =
     (if b < 0x80 then b # utf8_decode bs
      else if 0xC2 \<le> b \<and> b \<le> 0xDF then
        (case bs of
           [] \<Rightarrow> [0xFFFD]
         | c1 # r1 \<Rightarrow>
             if second_byte_ok b c1
             then ((b - 0xC0) * 0x40 + (c1 - 0x80)) # utf8_decode r1
             else 0xFFFD # utf8_decode bs)
      else if 0xE0 \<le> b \<and> b \<le> 0xEF then
        (case bs of
           [] \<Rightarrow> [0xFFFD]
         | c1 # r1 \<Rightarrow>
             if second_byte_ok b c1 then
               (case r1 of
                  [] \<Rightarrow> [0xFFFD]
                | c2 # r2 \<Rightarrow>
                    if continuation c2
                    then ((b - 0xE0) * 0x1000 + (c1 - 0x80) * 0x40 + (c2 - 0x80)) # utf8_decode r2
                    else 0xFFFD # utf8_decode r1)
             else 0xFFFD # utf8_decode bs)
      else if 0xF0 \<le> b \<and> b \<le> 0xF4 then
        (case bs of
           [] \<Rightarrow> [0xFFFD]
         | c1 # r1 \<Rightarrow>
             if second_byte_ok b c1 then
               (case r1 of
                  [] \<Rightarrow> [0xFFFD]
                | c2 # r2 \<Rightarrow>
                    if continuation c2 then
                      (case r2 of
                         [] \<Rightarrow> [0xFFFD]
                       | c3 # r3 \<Rightarrow>
                           if continuation c3
                           then code_point_units
                                  ((b - 0xF0) * 0x40000 + (c1 - 0x80) * 0x1000 +
                                   (c2 - 0x80) * 0x40 + (c3 - 0x80)) @ utf8_decode r3
                           else 0xFFFD # utf8_decode r2)
                    else 0xFFFD # utf8_decode r1)
             else 0xFFFD # utf8_decode bs)
      else 0xFFFD # utf8_decode bs)"

text \<open>
  The encoder writes a surrogate pair as the four bytes of its code point and a
  surrogate without its partner as the three bytes of \<open>U+FFFD\<close>.
\<close>

fun utf8_encode :: "jstring \<Rightarrow> nat list" where
  "utf8_encode [] = []"
| "utf8_encode (u # us) =
     (if u < 0x80 then u # utf8_encode us
      else if u < 0x800 then (0xC0 + u div 0x40) # (0x80 + u mod 0x40) # utf8_encode us
      else if 0xD800 \<le> u \<and> u \<le> 0xDBFF then
        (case us of
           [] \<Rightarrow> [0xEF, 0xBF, 0xBD]
         | l # rest \<Rightarrow>
             if 0xDC00 \<le> l \<and> l \<le> 0xDFFF then
               (let cp = 0x10000 + (u - 0xD800) * 0x400 + (l - 0xDC00)
                in (0xF0 + cp div 0x40000) # (0x80 + (cp div 0x1000) mod 0x40) #
                   (0x80 + (cp div 0x40) mod 0x40) # (0x80 + cp mod 0x40) # utf8_encode rest)
             else 0xEF # 0xBF # 0xBD # utf8_encode us)
      else if 0xDC00 \<le> u \<and> u \<le> 0xDFFF then 0xEF # 0xBF # 0xBD # utf8_encode us
      else (0xE0 + u div 0x1000) # (0x80 + (u div 0x40) mod 0x40) # (0x80 + u mod 0x40) #
           utf8_encode us)"

declare utf8_decode.simps(2) [simp del]
declare utf8_encode.simps(2) [simp del]

text \<open>Well-formed UTF-8: the byte sequences of Table 3-7 of the Unicode standard.\<close>

inductive well_formed_utf8 :: "nat list \<Rightarrow> bool" where
  wf_empty: "well_formed_utf8 []"
| wf_one: "b < 0x80 \<Longrightarrow> well_formed_utf8 bs \<Longrightarrow> well_formed_utf8 (b # bs)"
| wf_two: "0xC2 \<le> b \<Longrightarrow> b \<le> 0xDF \<Longrightarrow> continuation c1 \<Longrightarrow> well_formed_utf8 bs \<Longrightarrow>
     well_formed_utf8 (b # c1 # bs)"
| wf_three: "0xE0 \<le> b \<Longrightarrow> b \<le> 0xEF \<Longrightarrow> second_byte_ok b c1 \<Longrightarrow> continuation c2 \<Longrightarrow>
     well_formed_utf8 bs \<Longrightarrow> well_formed_utf8 (b # c1 # c2 # bs)"
| wf_four: "0xF0 \<le> b \<Longrightarrow> b \<le> 0xF4 \<Longrightarrow> second_byte_ok b c1 \<Longrightarrow> continuation c2 \<Longrightarrow>
     continuation c3 \<Longrightarrow> well_formed_utf8 bs \<Longrightarrow> well_formed_utf8 (b # c1 # c2 # c3 # bs)"

code_pred well_formed_utf8 .

text \<open>
  Well-formed UTF-16: every code unit is a code point outside the surrogates, or a high
  surrogate followed by a low one.
\<close>

inductive scalar_units :: "jstring \<Rightarrow> bool" where
  su_empty: "scalar_units []"
| su_unit: "u < 0xD800 \<or> (0xDFFF < u \<and> u < 0x10000) \<Longrightarrow> scalar_units us \<Longrightarrow>
     scalar_units (u # us)"
| su_pair: "0xD800 \<le> h \<Longrightarrow> h \<le> 0xDBFF \<Longrightarrow> 0xDC00 \<le> l \<Longrightarrow> l \<le> 0xDFFF \<Longrightarrow>
     scalar_units us \<Longrightarrow> scalar_units (h # l # us)"

code_pred scalar_units .

text \<open>
  A file has its bytes and says whether it may be read and written. \<open>readFileSync\<close>
  throws when the path has no file or the file may not be read, \<open>writeFileSync\<close> throws
  when the file may not be written; an exception leaves the file system as it was. A
  write that is interrupted half way is not modelled.
\<close>

record file_node =
  file_bytes :: "nat list"
  may_read :: bool
  may_write :: bool

datatype fs_error = ReadError | WriteError

definition updateConfigFile ::
  "('n \<Rightarrow> jstring) \<Rightarrow> (jstring \<rightharpoonup> file_node) \<Rightarrow> jstring \<Rightarrow> 'n ConfigLine list \<Rightarrow>
     fs_error + (jstring \<rightharpoonup> file_node)" where
  "updateConfigFile shw fs path updatedConfigLines =
     (case fs path of
        None \<Rightarrow> Inl ReadError
      | Some file \<Rightarrow>
          if \<not> may_read file then Inl ReadError
          else
            (let content = updateConfigContent shw (utf8_decode (file_bytes file)) updatedConfigLines
             in if \<not> may_write file then Inl WriteError
                else Inr (fs(path \<mapsto> file\<lparr>file_bytes := utf8_encode content\<rparr>))))"

subsection \<open>Numbers as text\<close>

text \<open>
  The examples below take the safe integers that are not negative, the natural numbers
  below \<open>2^53\<close>, for the numbers of an edit. Every one of them is a number of
  JavaScript, and in a template literal it is written in decimal without leading zeros.
\<close>

typedef safe_integer = "{n :: nat. n < 2 ^ 53}"
  by (rule exI [of _ 0]) simp

text \<open>The decimal digits of a natural number, as code units.\<close>

fun decimal :: "nat \<Rightarrow> jstring" where
  "decimal n =
     (if n < 10 then [0x30 + n]
      else decimal (n div 10) @ [0x30 + n mod 10])"

declare decimal.simps [simp del]

definition number_to_string :: "safe_integer \<Rightarrow> jstring" where
  "number_to_string x = decimal (Rep_safe_integer x)"

section \<open>Splitting and joining\<close>

lemma split_newline_not_Nil: "split_newline s \<noteq> []"
  by (induction s) (auto split: list.splits)

lemma join_newline_Cons:
  "ls \<noteq> [] \<Longrightarrow> join_newline (l # ls) = l @ chr_newline # join_newline ls"
  by (cases ls) simp_all

lemma join_split_newline: "join_newline (split_newline s) = s"
proof (induction s)
  case Nil
  show ?case by simp
next
  case (Cons c cs)
  obtain l ls where eq: "split_newline cs = l # ls"
    using split_newline_not_Nil [of cs] by (cases "split_newline cs") auto
  show ?case
  proof (cases "c = chr_newline")
    case True
    then show ?thesis
      using Cons.IH split_newline_not_Nil [of cs] by (simp add: join_newline_Cons)
  next
    case False
    then show ?thesis
      using Cons.IH eq by (cases ls) simp_all
  qed
qed

section \<open>Evaluation on concrete inputs\<close>

lemma decimal_digit: "n < 10 \<Longrightarrow> decimal n = [0x30 + n]"
  by (simp add: decimal.simps)

lemma number_to_string_digit:
  "n < 10 \<Longrightarrow> number_to_string (Abs_safe_integer n) = [0x30 + n]"
  by (simp add: number_to_string_def Abs_safe_integer_inverse decimal_digit)

lemmas evaluation =
  updateConfigContent_def apply_config_lines_def apply_config_line_def final_content_def
  initial_state_def scan_line_def startsWith_def sectionMatch_def keyMatch_def trim_def
  is_space_def get_property_def set_property_def property_key_def object_prototype_names_def
  to_integer_def plus_one_to_integer_def js_gt_def shift_entries_def js_splice_def
  key_value_line_def template_value_def str_def number_to_string_digit Let_def

section \<open>What the initial scan records\<close>

text \<open>
  Every index in \<open>lineIndices\<close> or \<open>sectionIndices\<close> comes from one iteration of the
  loop: it is the position of a line that does not start with \<open>#\<close> and that the
  respective pattern matches.
\<close>

lemma scan_line_fst:
  assumes "fst (scan_line i l acc) k = Some j"
  shows "fst acc k = Some j \<or>
         (j = i \<and> \<not> startsWith l [chr_hash] \<and> (\<exists>k'. keyMatch l = Some k' \<and> trim k' = k))"
  using assms
  by (auto simp: scan_line_def set_property_def Let_def split: if_splits option.splits)


lemma scan_from_fst:
  "fst (scan_from i ls acc) k = Some j \<Longrightarrow>
     fst acc k = Some j \<or>
     (i \<le> j \<and> j < i + length ls \<and> \<not> startsWith (ls ! (j - i)) [chr_hash] \<and>
      (\<exists>k'. keyMatch (ls ! (j - i)) = Some k' \<and> trim k' = k))"
proof (induction ls arbitrary: i acc)
  case Nil
  then show ?case by simp
next
  case (Cons l ls)
  from Cons.prems have "fst (scan_from (Suc i) ls (scan_line i l acc)) k = Some j" by simp
  from Cons.IH [OF this] consider
      (old) "fst (scan_line i l acc) k = Some j"
    | (new) "Suc i \<le> j" "j < Suc i + length ls" "\<not> startsWith (ls ! (j - Suc i)) [chr_hash]"
        "\<exists>k'. keyMatch (ls ! (j - Suc i)) = Some k' \<and> trim k' = k"
    by blast
  then show ?case
  proof cases
    case old
    from scan_line_fst [OF old] show ?thesis by auto
  next
    case new
    from new(1) have "(l # ls) ! (j - i) = ls ! (j - Suc i)"
      by (metis Suc_diff_le diff_Suc_Suc nth_Cons_Suc)
    with new show ?thesis by auto
  qed
qed


lemma lines_initial_state [simp]: "lines (initial_state content) = split_newline content"
  by (simp add: initial_state_def Let_def)

lemma addedContent_initial_state [simp]: "addedContent (initial_state content) = None"
  by (simp add: initial_state_def Let_def)

lemma lineIndices_initial_state:
  assumes "lineIndices (initial_state content) k = Some j"
  shows "j < length (split_newline content)"
    and "\<not> startsWith (split_newline content ! j) [chr_hash]"
    and "\<exists>k'. keyMatch (split_newline content ! j) = Some k' \<and> trim k' = k"
  using scan_from_fst [of 0 "split_newline content" "(Map.empty, Map.empty)" k j] assms
  by (simp_all add: initial_state_def Let_def)


lemma updateConfigContent_empty: "updateConfigContent shw content [] = content"
  by (simp add: updateConfigContent_def apply_config_lines_def final_content_def
      join_split_newline)



























section \<open>Replacing the line of a key\<close>

lemma js_splice_replace:
  "i < length xs \<Longrightarrow> js_splice i (Suc 0) [x] xs = xs[i := x]"
  by (simp add: js_splice_def upd_conv_take_nth_drop)

lemma get_property_Index: "get_property m k = Index i \<longleftrightarrow> m k = Some i"
  by (simp add: get_property_def split: option.splits)

text \<open>
  Claim C6: when the scan has recorded the key of an edit at index \<open>i\<close> and the value
  is not \<open>null\<close>, the edit rewrites the line at \<open>i\<close> and nothing else: the buffer
  keeps its length, every line at another position is unchanged, and the text written
  is the buffer with that one line replaced.
\<close>

theorem replace_changes_one_line:
  assumes "lineIndices (initial_state content) (cl_key cl) = Some i"
    and "cl_value cl \<noteq> VNull"
  shows "i < length (split_newline content) \<and>
         lines (apply_config_line shw cl (initial_state content)) =
           (split_newline content)[i := cl_key cl @ [chr_equals] @ template_value shw (cl_value cl)] \<and>
         length (lines (apply_config_line shw cl (initial_state content))) =
           length (split_newline content) \<and>
         (\<forall>j. j \<noteq> i \<longrightarrow>
            lines (apply_config_line shw cl (initial_state content)) ! j = split_newline content ! j) \<and>
         updateConfigContent shw content [cl] =
           join_newline ((split_newline content)[i := cl_key cl @ [chr_equals] @ template_value shw (cl_value cl)])"
proof -
  let ?st = "initial_state content"
  let ?new = "cl_key cl @ [chr_equals] @ template_value shw (cl_value cl)"
  from lineIndices_initial_state(1) [OF assms(1)] have i: "i < length (split_newline content)" .
  have get: "get_property (lineIndices ?st) (cl_key cl) = Index i"
    using assms(1) by (simp add: get_property_def)
  have step: "apply_config_line shw cl ?st = ?st\<lparr>lines := (split_newline content)[i := ?new]\<rparr>"
    using get assms(2) i
    by (simp add: apply_config_line_def to_integer_def key_value_line_def js_splice_replace)
  have l: "lines (apply_config_line shw cl ?st) = (split_newline content)[i := ?new]"
    by (simp add: step)
  have out: "updateConfigContent shw content [cl] = join_newline ((split_newline content)[i := ?new])"
    by (simp add: updateConfigContent_def apply_config_lines_def final_content_def step)
  from i l out show ?thesis by simp
qed

theorem replace_changes_one_line_witness:
  "lineIndices (initial_state (str ''a=1\<newline>foo=1\<newline>b=2'')) (str ''foo'') = Some 1 \<and>
   lines (apply_config_line number_to_string
            \<lparr>cl_key = str ''foo'', cl_value = VNumber (Abs_safe_integer 7), cl_section = None\<rparr>
            (initial_state (str ''a=1\<newline>foo=1\<newline>b=2''))) =
     [str ''a=1'', str ''foo=7'', str ''b=2''] \<and>
   updateConfigContent number_to_string (str ''a=1\<newline>foo=1\<newline>b=2'')
     [\<lparr>cl_key = str ''foo'', cl_value = VNumber (Abs_safe_integer 7), cl_section = None\<rparr>] =
     str ''a=1\<newline>foo=7\<newline>b=2''"
proof -
  let ?cl = "\<lparr>cl_key = str ''foo'', cl_value = VNumber (Abs_safe_integer 7), cl_section = None\<rparr>"
  have h1: "lineIndices (initial_state (str ''a=1\<newline>foo=1\<newline>b=2'')) (cl_key ?cl) = Some 1"
    by (simp add: evaluation)
  have h2: "cl_value ?cl \<noteq> VNull" by simp
  have sp: "split_newline (str ''a=1\<newline>foo=1\<newline>b=2'') = [str ''a=1'', str ''foo=1'', str ''b=2'']"
    by (simp add: str_def)
  from replace_changes_one_line [OF h1 h2, of number_to_string] h1 show ?thesis
    by (simp add: sp template_value_def number_to_string_digit) (simp add: str_def)
qed

text \<open>
  Claim C10: a replacement writes exactly the key of the edit, one \<open>=\<close> and the value
  at the recorded index: the string itself for a string value, the text of the number
  for a number. Nothing of the old line is kept: in the example the spaces around
  \<open>=\<close>, the indentation and the trailing comment are gone.
\<close>

theorem replace_writes_key_equals_value:
  assumes "get_property (lineIndices st) (cl_key cl) = Index i"
    and "i < length (lines st)"
  shows "(\<forall>s. cl_value cl = VString s \<longrightarrow>
            lines (apply_config_line shw cl st) ! i = cl_key cl @ [chr_equals] @ s) \<and>
         (\<forall>n. cl_value cl = VNumber n \<longrightarrow>
            lines (apply_config_line shw cl st) ! i = cl_key cl @ [chr_equals] @ shw n)"
  using assms
  by (simp add: apply_config_line_def to_integer_def key_value_line_def template_value_def
      js_splice_replace)

theorem replace_writes_key_equals_value_witness:
  "get_property (lineIndices (initial_state (str ''  Foo  =  1   # one\<newline>n = 0''))) (str ''Foo'') = Index 0 \<and>
   get_property (lineIndices (initial_state (str ''  Foo  =  1   # one\<newline>n = 0''))) (str ''n'') = Index 1 \<and>
   lines (apply_config_line number_to_string
            \<lparr>cl_key = str ''Foo'', cl_value = VString (str ''2''), cl_section = None\<rparr>
            (initial_state (str ''  Foo  =  1   # one\<newline>n = 0''))) ! 0 = str ''Foo=2'' \<and>
   lines (apply_config_line number_to_string
            \<lparr>cl_key = str ''n'', cl_value = VNumber (Abs_safe_integer 7), cl_section = None\<rparr>
            (initial_state (str ''  Foo  =  1   # one\<newline>n = 0''))) ! 1 = str ''n=7''"
proof -
  let ?c1 = "\<lparr>cl_key = str ''Foo'', cl_value = VString (str ''2'') :: safe_integer config_value,
              cl_section = None\<rparr>"
  let ?c2 = "\<lparr>cl_key = str ''n'', cl_value = VNumber (Abs_safe_integer 7), cl_section = None\<rparr>"
  let ?st = "initial_state (str ''  Foo  =  1   # one\<newline>n = 0'')"
  have g1: "get_property (lineIndices ?st) (cl_key ?c1) = Index 0"
    by (simp add: evaluation)
  have g2: "get_property (lineIndices ?st) (cl_key ?c2) = Index 1"
    by (simp add: evaluation)
  have l0: "0 < length (lines ?st)" and l1: "1 < length (lines ?st)"
    by (simp_all add: str_def)
  from replace_writes_key_equals_value [OF g1 l0, of number_to_string]
  have r1: "lines (apply_config_line number_to_string ?c1 ?st) ! 0 = str ''Foo=2''"
    by (simp add: str_def)
  from replace_writes_key_equals_value [OF g2 l1, of number_to_string]
  have r2: "lines (apply_config_line number_to_string ?c2 ?st) ! 1 = str ''n=7''"
    by (simp add: number_to_string_digit) (simp add: str_def)
  from g1 g2 r1 r2 show ?thesis by simp
qed

section \<open>Inserting after a section header\<close>

text \<open>
  When the lookup of the key yields \<open>undefined\<close> and the lookup of the section yields
  the index \<open>p\<close>, the new line is put at \<open>p + 1\<close> and every recorded index greater
  than \<open>p\<close> is incremented.
\<close>

lemma shift_entries_Index:
  "shift_entries (Index p) f m k = map_option (\<lambda>i. if p < i then f i else i) (m k)"
  by (simp add: shift_entries_def js_gt_def split: option.splits)

lemma insert_after_section_header:
  assumes "get_property (lineIndices st) (cl_key cl) = Undefined"
    and "cl_value cl \<noteq> VNull"
    and "get_property (sectionIndices st) (property_key (cl_section cl)) = Index p"
  shows "lines (apply_config_line shw cl st) =
           take (Suc p) (lines st) @
           [cl_key cl @ [chr_equals] @ template_value shw (cl_value cl)] @
           drop (Suc p) (lines st)"
    and "lineIndices (apply_config_line shw cl st) k =
           map_option (\<lambda>i. if p < i then Suc i else i) (lineIndices st k)"
    and "sectionIndices (apply_config_line shw cl st) s =
           map_option (\<lambda>i. if p < i then Suc i else i) (sectionIndices st s)"
    and "addedContent (apply_config_line shw cl st) = addedContent st"
proof -
  have step: "apply_config_line shw cl st =
      st\<lparr>lines := take (Suc p) (lines st) @
                     [cl_key cl @ [chr_equals] @ template_value shw (cl_value cl)] @
                     drop (Suc p) (lines st),
         lineIndices := shift_entries (Index p) (\<lambda>index. index + 1) (lineIndices st),
         sectionIndices := shift_entries (Index p) (\<lambda>index. index + 1) (sectionIndices st)\<rparr>"
    using assms
    by (simp add: apply_config_line_def plus_one_to_integer_def key_value_line_def js_splice_def Let_def)
  show "lines (apply_config_line shw cl st) =
           take (Suc p) (lines st) @
           [cl_key cl @ [chr_equals] @ template_value shw (cl_value cl)] @
           drop (Suc p) (lines st)"
    by (simp add: step)
  show "lineIndices (apply_config_line shw cl st) k =
           map_option (\<lambda>i. if p < i then Suc i else i) (lineIndices st k)"
    by (simp add: step shift_entries_Index)
  show "sectionIndices (apply_config_line shw cl st) s =
           map_option (\<lambda>i. if p < i then Suc i else i) (sectionIndices st s)"
    by (simp add: step shift_entries_Index)
  show "addedContent (apply_config_line shw cl st) = addedContent st"
    by (simp add: step)
qed

text \<open>
  Claim C5 does not hold of the code: the two objects are made by \<open>{}\<close>, so a key
  that no line defines but that names a member of \<open>Object.prototype\<close> is found all the
  same. For the key \<open>toString\<close> the edit takes the replacing branch and overwrites the
  first line instead of inserting after the header \<open>[en]\<close>. For the same reason a
  header \<open>[__proto__]\<close> is never stored, and an edit for that section is inserted at
  the top of the file instead of after the header.
\<close>

theorem inherited_key_is_not_inserted:
  "lineIndices (initial_state (str ''x=0\<newline>[en]\<newline>foo=1'')) (str ''toString'') = None \<and>
   sectionIndices (initial_state (str ''x=0\<newline>[en]\<newline>foo=1'')) (str ''en'') = Some 1 \<and>
   get_property (lineIndices (initial_state (str ''x=0\<newline>[en]\<newline>foo=1''))) (str ''toString'') = Inherited \<and>
   lines (apply_config_line number_to_string
            \<lparr>cl_key = str ''toString'', cl_value = VNumber (Abs_safe_integer 2), cl_section = Some (str ''en'')\<rparr>
            (initial_state (str ''x=0\<newline>[en]\<newline>foo=1''))) =
     [str ''toString=2'', str ''[en]'', str ''foo=1''] \<and>
   updateConfigContent number_to_string (str ''x=0\<newline>[en]\<newline>foo=1'')
      [\<lparr>cl_key = str ''toString'', cl_value = VNumber (Abs_safe_integer 2), cl_section = Some (str ''en'')\<rparr>] =
     str ''toString=2\<newline>[en]\<newline>foo=1'' \<and>
   sectionMatch (str ''[__proto__]'') = Some (str ''__proto__'') \<and>
   sectionIndices (initial_state (str ''[__proto__]\<newline>foo=1'')) (str ''__proto__'') = None \<and>
   updateConfigContent number_to_string (str ''[__proto__]\<newline>foo=1'')
      [\<lparr>cl_key = str ''bar'', cl_value = VNumber (Abs_safe_integer 2), cl_section = Some (str ''__proto__'')\<rparr>] =
     str ''bar=2\<newline>[__proto__]\<newline>foo=1''"
  by (simp add: evaluation)

section \<open>Deleting the line of a key\<close>

text \<open>
  A deletion at index \<open>d\<close> removes the line, decrements every recorded index greater
  than \<open>d\<close>, and leaves the entry of the deleted key at \<open>d\<close>.
\<close>

lemma delete_existing_key:
  assumes "get_property (lineIndices st) (cl_key cl) = Index d"
    and "cl_value cl = VNull"
  shows "lines (apply_config_line shw cl st) = take d (lines st) @ drop (Suc d) (lines st)"
    and "lineIndices (apply_config_line shw cl st) k =
           map_option (\<lambda>i. if d < i then i - 1 else i) (lineIndices st k)"
    and "sectionIndices (apply_config_line shw cl st) s =
           map_option (\<lambda>i. if d < i then i - 1 else i) (sectionIndices st s)"
    and "lineIndices (apply_config_line shw cl st) (cl_key cl) = Some d"
proof -
  have step: "apply_config_line shw cl st =
      st\<lparr>lines := take d (lines st) @ drop (Suc d) (lines st),
         lineIndices := shift_entries (Index d) (\<lambda>index. index - 1) (lineIndices st),
         sectionIndices := shift_entries (Index d) (\<lambda>index. index - 1) (sectionIndices st)\<rparr>"
    using assms by (simp add: apply_config_line_def to_integer_def js_splice_def Let_def)
  show "lines (apply_config_line shw cl st) = take d (lines st) @ drop (Suc d) (lines st)"
    by (simp add: step)
  show "lineIndices (apply_config_line shw cl st) k =
          map_option (\<lambda>i. if d < i then i - 1 else i) (lineIndices st k)"
    by (simp add: step shift_entries_Index del: One_nat_def)
  show "sectionIndices (apply_config_line shw cl st) s =
          map_option (\<lambda>i. if d < i then i - 1 else i) (sectionIndices st s)"
    by (simp add: step shift_entries_Index del: One_nat_def)
  from assms(1) have "lineIndices st (cl_key cl) = Some d"
    by (simp add: get_property_Index)
  then show "lineIndices (apply_config_line shw cl st) (cl_key cl) = Some d"
    by (simp add: step shift_entries_Index)
qed

text \<open>
  Claim C2 does not hold of the code: after the deletion of \<open>a\<close> from the two-line
  text below, \<open>lineIndices\<close> still maps \<open>a\<close> to 0, which is now the position of
  \<open>b=2\<close>. A second edit for \<open>a\<close> in the same batch therefore overwrites \<open>b=2\<close>.
\<close>

theorem deleted_key_keeps_its_index:
  "lines (apply_config_line number_to_string \<lparr>cl_key = str ''a'', cl_value = VNull, cl_section = None\<rparr>
            (initial_state (str ''a=1\<newline>b=2''))) = [str ''b=2''] \<and>
   lineIndices (apply_config_line number_to_string \<lparr>cl_key = str ''a'', cl_value = VNull, cl_section = None\<rparr>
            (initial_state (str ''a=1\<newline>b=2''))) (str ''a'') = Some 0 \<and>
   lineIndices (apply_config_line number_to_string \<lparr>cl_key = str ''a'', cl_value = VNull, cl_section = None\<rparr>
            (initial_state (str ''a=1\<newline>b=2''))) (str ''b'') = Some 0 \<and>
   updateConfigContent number_to_string (str ''a=1\<newline>b=2'')
      [\<lparr>cl_key = str ''a'', cl_value = VNull, cl_section = None\<rparr>,
       \<lparr>cl_key = str ''a'', cl_value = VNumber (Abs_safe_integer 5), cl_section = None\<rparr>] = str ''a=5''"
  by (simp add: evaluation)

section \<open>Appending at the end\<close>

text \<open>
  An edit whose key is not found, whose value is not \<open>null\<close> and whose section is not
  found only sets \<open>addedContent\<close>; the text written is then the joined buffer followed
  by \<open>key=value\<close> and a line break.
\<close>

lemma append_when_section_unresolved:
  assumes "get_property (lineIndices st) (cl_key cl) = Undefined"
    and "cl_value cl \<noteq> VNull"
    and "get_property (sectionIndices st) (property_key (cl_section cl)) = Undefined"
  shows "apply_config_line shw cl st =
           st\<lparr>addedContent :=
                Some (cl_key cl @ [chr_equals] @ template_value shw (cl_value cl) @ [chr_newline])\<rparr>"
    and "final_content (apply_config_line shw cl st) =
           join_newline (lines st) @ cl_key cl @ [chr_equals] @
           template_value shw (cl_value cl) @ [chr_newline]"
  using assms
  by (simp_all add: apply_config_line_def key_value_line_def final_content_def Let_def)

text \<open>
  Claim C1 does not hold of the code: \<open>addedContent\<close> is one string that each
  appending edit assigns anew. Of the two appending edits below only the second reaches
  the text written.
\<close>

theorem second_append_overwrites_first:
  "addedContent (apply_config_lines number_to_string
      [\<lparr>cl_key = str ''a'', cl_value = VNumber (Abs_safe_integer 1), cl_section = None\<rparr>]
      (initial_state (str ''foo=1\<newline>''))) = Some (str ''a=1\<newline>'') \<and>
   addedContent (apply_config_lines number_to_string
      [\<lparr>cl_key = str ''a'', cl_value = VNumber (Abs_safe_integer 1), cl_section = None\<rparr>,
       \<lparr>cl_key = str ''b'', cl_value = VNumber (Abs_safe_integer 2), cl_section = None\<rparr>]
      (initial_state (str ''foo=1\<newline>''))) = Some (str ''b=2\<newline>'') \<and>
   updateConfigContent number_to_string (str ''foo=1\<newline>'')
      [\<lparr>cl_key = str ''a'', cl_value = VNumber (Abs_safe_integer 1), cl_section = None\<rparr>,
       \<lparr>cl_key = str ''b'', cl_value = VNumber (Abs_safe_integer 2), cl_section = None\<rparr>] =
     str ''foo=1\<newline>b=2\<newline>''"
  by (simp add: evaluation)

text \<open>
  Claim C8 does not hold of the code for an edit without a section: \<open>null\<close> is looked
  up as the name \<open>null\<close>, so when the file has a header \<open>[null]\<close> the new line is
  inserted after that header instead of being appended.
\<close>

theorem null_section_finds_header_named_null:
  "get_property (lineIndices (initial_state (str ''[null]\<newline>foo=1\<newline>''))) (str ''baz'') = Undefined \<and>
   updateConfigContent number_to_string (str ''[null]\<newline>foo=1\<newline>'')
      [\<lparr>cl_key = str ''baz'', cl_value = VNumber (Abs_safe_integer 3), cl_section = None\<rparr>] =
     str ''[null]\<newline>baz=3\<newline>foo=1\<newline>''"
  by (simp add: evaluation)

text \<open>
  Claim C9 does not hold of the code: the text \<open>foo=1\<close> has no final line break, and
  the appended text follows it on the same line. When the text ends with a line break
  the new line \<open>baz=3\<close> is a line of its own.
\<close>

theorem append_joins_unterminated_last_line:
  "updateConfigContent number_to_string (str ''foo=1'')
      [\<lparr>cl_key = str ''baz'', cl_value = VNumber (Abs_safe_integer 3), cl_section = None\<rparr>] =
     str ''foo=1baz=3\<newline>'' \<and>
   updateConfigContent number_to_string (str ''foo=1\<newline>'')
      [\<lparr>cl_key = str ''baz'', cl_value = VNumber (Abs_safe_integer 3), cl_section = None\<rparr>] =
     str ''foo=1\<newline>baz=3\<newline>''"
  by (simp add: evaluation)

section \<open>Decoding and encoding the file\<close>

text \<open>
  On the leading bytes of a well-formed sequence the decoder yields the code point, and
  the encoder gives the same bytes back.
\<close>

lemma decode_one: "b < 0x80 \<Longrightarrow> utf8_decode (b # bs) = b # utf8_decode bs"
  by (simp add: utf8_decode.simps(2))

lemma decode_two:
  assumes "0xC2 \<le> b" "b \<le> 0xDF" "continuation c1"
  shows "utf8_decode (b # c1 # bs) = ((b - 0xC0) * 0x40 + (c1 - 0x80)) # utf8_decode bs"
  using assms by (simp add: utf8_decode.simps(2) second_byte_ok_def continuation_def)

lemma decode_three:
  assumes "0xE0 \<le> b" "b \<le> 0xEF" "second_byte_ok b c1" "continuation c2"
  shows "utf8_decode (b # c1 # c2 # bs) =
           ((b - 0xE0) * 0x1000 + (c1 - 0x80) * 0x40 + (c2 - 0x80)) # utf8_decode bs"
  using assms by (simp add: utf8_decode.simps(2))

lemma decode_four:
  assumes "0xF0 \<le> b" "b \<le> 0xF4" "second_byte_ok b c1" "continuation c2" "continuation c3"
  shows "utf8_decode (b # c1 # c2 # c3 # bs) =
           code_point_units ((b - 0xF0) * 0x40000 + (c1 - 0x80) * 0x1000 +
                             (c2 - 0x80) * 0x40 + (c3 - 0x80)) @ utf8_decode bs"
  using assms by (simp add: utf8_decode.simps(2))

lemma encode_one: "b < 0x80 \<Longrightarrow> utf8_encode (b # us) = b # utf8_encode us"
  by (simp add: utf8_encode.simps(2))

lemma encode_two:
  assumes "0xC2 \<le> b" "b \<le> 0xDF" "continuation c1"
  shows "utf8_encode (((b - 0xC0) * 0x40 + (c1 - 0x80)) # us) = b # c1 # utf8_encode us"
proof -
  define x y where "x = b - 0xC0" and "y = c1 - 0x80"
  with assms have b: "b = 0xC0 + x" and c: "c1 = 0x80 + y" and x: "2 \<le> x" "x < 32" and y: "y < 64"
    by (auto simp: continuation_def)
  have "\<not> x * 64 + y < 128" using x by simp
  moreover have "x * 64 + y < 2048" using x y by simp
  moreover have "(x * 64 + y) div 64 = x" "(x * 64 + y) mod 64 = y" using y by simp_all
  ultimately show ?thesis
    unfolding b c by (simp add: utf8_encode.simps(2))
qed

lemma encode_unit_three:
  assumes "0x800 \<le> u" and "u < 0xD800 \<or> 0xDFFF < u"
  shows "utf8_encode (u # us) =
           (0xE0 + u div 0x1000) # (0x80 + (u div 0x40) mod 0x40) # (0x80 + u mod 0x40) #
           utf8_encode us"
  using assms by (auto simp: utf8_encode.simps(2))

lemma encode_pair:
  assumes "0xD800 \<le> h" "h \<le> 0xDBFF" "0xDC00 \<le> l" "l \<le> 0xDFFF"
    and "cp = 0x10000 + (h - 0xD800) * 0x400 + (l - 0xDC00)"
  shows "utf8_encode (h # l # us) =
           (0xF0 + cp div 0x40000) # (0x80 + (cp div 0x1000) mod 0x40) #
           (0x80 + (cp div 0x40) mod 0x40) # (0x80 + cp mod 0x40) # utf8_encode us"
  using assms by (simp add: utf8_encode.simps(2) Let_def)

lemma encode_three:
  assumes "0xE0 \<le> b" "b \<le> 0xEF" "second_byte_ok b c1" "continuation c2"
  shows "utf8_encode (((b - 0xE0) * 0x1000 + (c1 - 0x80) * 0x40 + (c2 - 0x80)) # us) =
           b # c1 # c2 # utf8_encode us"
proof -
  define x y z where "x = b - 0xE0" and "y = c1 - 0x80" and "z = c2 - 0x80"
  with assms have b: "b = 0xE0 + x" and c1: "c1 = 0x80 + y" and c2: "c2 = 0x80 + z"
    and x: "x < 16" and y: "y < 64" and z: "z < 64"
    and lo: "x = 0 \<longrightarrow> 32 \<le> y" and sur: "x = 13 \<longrightarrow> y < 32"
    by (auto simp: continuation_def second_byte_ok_def split: if_splits)
  define cp where "cp = x * 4096 + y * 64 + z"
  have ge: "0x800 \<le> cp" unfolding cp_def using lo y z by (cases "x = 0") auto
  have nsur: "cp < 0xD800 \<or> 0xDFFF < cp"
  proof (cases "x = 13")
    case True
    with sur have "y < 32" by simp
    with True z show ?thesis unfolding cp_def by simp
  next
    case False
    then have "x \<le> 12 \<or> 14 \<le> x" by arith
    with y z show ?thesis unfolding cp_def by auto
  qed
  have d1: "cp div 4096 = x" unfolding cp_def using y z by simp
  have "cp div 64 = x * 64 + y" unfolding cp_def using z by simp
  then have d2: "(cp div 64) mod 64 = y" using y by simp
  have "cp = (x * 64 + y) * 64 + z" unfolding cp_def by simp
  then have d3: "cp mod 64 = z" using z by (metis mod_mult_self3 mod_less)
  have "(b - 0xE0) * 0x1000 + (c1 - 0x80) * 0x40 + (c2 - 0x80) = cp"
    unfolding cp_def b c1 c2 by simp
  then show ?thesis
    using encode_unit_three [OF ge nsur, of us] d1 d2 d3 unfolding b c1 c2 by simp
qed

lemma encode_four:
  assumes "0xF0 \<le> b" "b \<le> 0xF4" "second_byte_ok b c1" "continuation c2" "continuation c3"
  shows "utf8_encode (code_point_units ((b - 0xF0) * 0x40000 + (c1 - 0x80) * 0x1000 +
                                        (c2 - 0x80) * 0x40 + (c3 - 0x80)) @ us) =
           b # c1 # c2 # c3 # utf8_encode us"
proof -
  define w x y z where "w = b - 0xF0" and "x = c1 - 0x80" and "y = c2 - 0x80" and "z = c3 - 0x80"
  with assms have b: "b = 0xF0 + w" and c1: "c1 = 0x80 + x" and c2: "c2 = 0x80 + y"
    and c3: "c3 = 0x80 + z"
    and w: "w < 5" and x: "x < 64" and y: "y < 64" and z: "z < 64"
    and lo: "w = 0 \<longrightarrow> 16 \<le> x" and hi: "w = 4 \<longrightarrow> x < 16"
    by (auto simp: continuation_def second_byte_ok_def split: if_splits)
  define cp where "cp = w * 262144 + x * 4096 + y * 64 + z"
  have ge: "65536 \<le> cp" unfolding cp_def using lo by (cases "w = 0") auto
  have le: "cp < 1114112"
  proof (cases "w = 4")
    case True
    with hi x y z show ?thesis unfolding cp_def by simp
  next
    case False
    with w have "w \<le> 3" by simp
    with x y z show ?thesis unfolding cp_def by simp
  qed
  define a where "a = cp - 65536"
  with ge le have a: "a < 1048576" and cpa: "cp = 65536 + a" by simp_all
  define h l where "h = 55296 + a div 1024" and "l = 56320 + a mod 1024"
  have hr: "0xD800 \<le> h" "h \<le> 0xDBFF" using a unfolding h_def by simp_all
  have lr: "0xDC00 \<le> l" "l \<le> 0xDFFF" unfolding l_def by simp_all
  have units: "code_point_units cp = [h, l]"
    using ge by (simp add: code_point_units_def a_def h_def l_def)
  have again: "cp = 0x10000 + (h - 0xD800) * 0x400 + (l - 0xDC00)"
    unfolding h_def l_def cpa by simp
  have d1: "cp div 262144 = w" unfolding cp_def using x y z by simp
  have "cp div 4096 = w * 64 + x" unfolding cp_def using y z by simp
  then have d2: "(cp div 4096) mod 64 = x" using x by simp
  have "cp = (w * 4096 + x * 64 + y) * 64 + z" unfolding cp_def by simp
  then have d4: "cp mod 64 = z" using z by (metis mod_mult_self3 mod_less)
  have "cp div 64 = (w * 64 + x) * 64 + y" unfolding cp_def using z by simp
  then have d3: "(cp div 64) mod 64 = y" using y by (metis mod_mult_self3 mod_less)
  have "(b - 0xF0) * 0x40000 + (c1 - 0x80) * 0x1000 + (c2 - 0x80) * 0x40 + (c3 - 0x80) = cp"
    unfolding cp_def b c1 c2 c3 by simp
  then show ?thesis
    using encode_pair [OF hr lr again, of us] units d1 d2 d3 d4 unfolding b c1 c2 c3 by simp
qed

lemma encode_decode_well_formed:
  "well_formed_utf8 bs \<Longrightarrow> utf8_encode (utf8_decode bs) = bs"
proof (induction rule: well_formed_utf8.induct)
  case wf_empty
  show ?case by simp
next
  case (wf_one b bs)
  then show ?case by (simp add: decode_one encode_one)
next
  case (wf_two b c1 bs)
  then show ?case by (simp add: decode_two encode_two)
next
  case (wf_three b c1 c2 bs)
  then show ?case by (simp add: decode_three encode_three)
next
  case (wf_four b c1 c2 c3 bs)
  then show ?case by (simp add: decode_four encode_four)
qed

text \<open>
  The decoder yields well-formed UTF-16 on every input, and the encoder yields
  well-formed UTF-8 on well-formed UTF-16. So reading and writing bytes gives the same
  bytes exactly when they are well-formed UTF-8.
\<close>

lemma scalar_replacement: "scalar_units us \<Longrightarrow> scalar_units (0xFFFD # us)"
  by (rule su_unit) simp_all

lemma scalar_three:
  assumes "0xE0 \<le> b" "b \<le> 0xEF" "second_byte_ok b c1" "continuation c2" "scalar_units us"
  shows "scalar_units (((b - 0xE0) * 0x1000 + (c1 - 0x80) * 0x40 + (c2 - 0x80)) # us)"
proof -
  define x y z where "x = b - 0xE0" and "y = c1 - 0x80" and "z = c2 - 0x80"
  with assms have x: "x < 16" and y: "y < 64" and z: "z < 64" and sur: "x = 13 \<longrightarrow> y < 32"
    by (auto simp: continuation_def second_byte_ok_def split: if_splits)
  define cp where "cp = x * 4096 + y * 64 + z"
  have "cp < 0xD800 \<or> (0xDFFF < cp \<and> cp < 0x10000)"
  proof (cases "x = 13")
    case True
    with sur have "y < 32" by simp
    with True z show ?thesis unfolding cp_def by simp
  next
    case False
    then have "x \<le> 12 \<or> 14 \<le> x" by arith
    with x y z show ?thesis unfolding cp_def by auto
  qed
  then have "scalar_units (cp # us)" using assms(5) by (rule su_unit)
  then show ?thesis unfolding cp_def x_def y_def z_def .
qed

lemma scalar_four:
  assumes "0xF0 \<le> b" "b \<le> 0xF4" "second_byte_ok b c1" "continuation c2" "continuation c3"
    "scalar_units us"
  shows "scalar_units (code_point_units ((b - 0xF0) * 0x40000 + (c1 - 0x80) * 0x1000 +
                                        (c2 - 0x80) * 0x40 + (c3 - 0x80)) @ us)"
proof -
  define w x y z where "w = b - 0xF0" and "x = c1 - 0x80" and "y = c2 - 0x80" and "z = c3 - 0x80"
  with assms have w: "w < 5" and x: "x < 64" and y: "y < 64" and z: "z < 64"
    and lo: "w = 0 \<longrightarrow> 16 \<le> x" and hi: "w = 4 \<longrightarrow> x < 16"
    by (auto simp: continuation_def second_byte_ok_def split: if_splits)
  define cp where "cp = w * 262144 + x * 4096 + y * 64 + z"
  have ge: "65536 \<le> cp" unfolding cp_def using lo by (cases "w = 0") auto
  have le: "cp < 1114112"
  proof (cases "w = 4")
    case True
    with hi x y z show ?thesis unfolding cp_def by simp
  next
    case False
    with w have "w \<le> 3" by simp
    with x y z show ?thesis unfolding cp_def by simp
  qed
  define a where "a = cp - 65536"
  with ge le have a: "a < 1048576" by simp
  have "scalar_units ((55296 + a div 1024) # (56320 + a mod 1024) # us)"
    using a assms(6) by (intro su_pair) simp_all
  then have "scalar_units (code_point_units cp @ us)"
    using ge by (simp add: code_point_units_def a_def)
  then show ?thesis unfolding cp_def w_def x_def y_def z_def .
qed

lemma scalar_decode: "scalar_units (utf8_decode bs)"
proof (induction bs rule: utf8_decode.induct)
  case 1
  show ?case by (simp add: su_empty)
next
  case (2 b bs)
  have rep: "scalar_units [0xFFFD]" by (rule scalar_replacement [OF su_empty])
  show ?case
  proof (cases "b < 0x80")
    case True
    with 2 show ?thesis by (simp add: utf8_decode.simps(2) su_unit)
  next
    case n1: False
    show ?thesis
    proof (cases "0xC2 \<le> b \<and> b \<le> 0xDF")
      case True
      show ?thesis
      proof (cases bs)
        case Nil
        with n1 True rep show ?thesis by (simp add: utf8_decode.simps(2))
      next
        case (Cons c1 r1)
        show ?thesis
        proof (cases "second_byte_ok b c1")
          case ok: True
          from n1 True Cons ok 2(2) have "scalar_units (utf8_decode r1)" by simp
          moreover from True ok have "(b - 0xC0) * 0x40 + (c1 - 0x80) < 0xD800"
            by (auto simp: second_byte_ok_def split: if_splits)
          ultimately show ?thesis using n1 True Cons ok
            by (simp add: utf8_decode.simps(2) su_unit)
        next
          case False
          from n1 True Cons False 2(3) have "scalar_units (utf8_decode bs)" by simp
          then show ?thesis using n1 True Cons False
            by (simp add: utf8_decode.simps(2) scalar_replacement)
        qed
      qed
    next
      case n2: False
      show ?thesis
      proof (cases "0xE0 \<le> b \<and> b \<le> 0xEF")
        case True
        show ?thesis
        proof (cases bs)
          case Nil
          with n1 n2 True rep show ?thesis by (simp add: utf8_decode.simps(2))
        next
          case c1: (Cons c1 r1)
          show ?thesis
          proof (cases "second_byte_ok b c1")
            case False
            from n1 n2 True c1 False 2(6) have "scalar_units (utf8_decode bs)" by simp
            then show ?thesis using n1 n2 True c1 False
              by (simp add: utf8_decode.simps(2) scalar_replacement)
          next
            case ok: True
            show ?thesis
            proof (cases r1)
              case Nil
              with n1 n2 True c1 ok rep show ?thesis by (simp add: utf8_decode.simps(2))
            next
              case c2: (Cons c2 r2)
              show ?thesis
              proof (cases "continuation c2")
                case False
                from n1 n2 True c1 ok c2 False 2(5) have "scalar_units (utf8_decode r1)" by simp
                then show ?thesis using n1 n2 True c1 ok c2 False
                  by (simp add: utf8_decode.simps(2) scalar_replacement)
              next
                case co: True
                from n1 n2 True c1 ok c2 co 2(4) have "scalar_units (utf8_decode r2)" by simp
                from scalar_three [OF _ _ ok co this] True
                show ?thesis using n1 n2 True c1 ok c2 co
                  by (simp add: utf8_decode.simps(2))
              qed
            qed
          qed
        qed
      next
        case n3: False
        show ?thesis
        proof (cases "0xF0 \<le> b \<and> b \<le> 0xF4")
          case False
          from n1 n2 n3 False 2(11) have "scalar_units (utf8_decode bs)" by simp
          then show ?thesis using n1 n2 n3 False
            by (auto simp: utf8_decode.simps(2) scalar_replacement)
        next
          case True
          show ?thesis
          proof (cases bs)
            case Nil
            with n1 n2 n3 True rep show ?thesis by (simp add: utf8_decode.simps(2))
          next
            case c1: (Cons c1 r1)
            show ?thesis
            proof (cases "second_byte_ok b c1")
              case False
              from n1 n2 n3 True c1 False 2(10) have "scalar_units (utf8_decode bs)" by simp
              then show ?thesis using n1 n2 n3 True c1 False
                by (simp add: utf8_decode.simps(2) scalar_replacement)
            next
              case ok: True
              show ?thesis
              proof (cases r1)
                case Nil
                with n1 n2 n3 True c1 ok rep show ?thesis by (simp add: utf8_decode.simps(2))
              next
                case c2: (Cons c2 r2)
                show ?thesis
                proof (cases "continuation c2")
                  case False
                  from n1 n2 n3 True c1 ok c2 False 2(9) have "scalar_units (utf8_decode r1)"
                    by simp
                  then show ?thesis using n1 n2 n3 True c1 ok c2 False
                    by (simp add: utf8_decode.simps(2) scalar_replacement)
                next
                  case co2: True
                  show ?thesis
                  proof (cases r2)
                    case Nil
                    with n1 n2 n3 True c1 ok c2 co2 rep show ?thesis
                      by (simp add: utf8_decode.simps(2))
                  next
                    case c3: (Cons c3 r3)
                    show ?thesis
                    proof (cases "continuation c3")
                      case False
                      from n1 n2 n3 True c1 ok c2 co2 c3 False 2(8)
                      have "scalar_units (utf8_decode r2)" by simp
                      then show ?thesis using n1 n2 n3 True c1 ok c2 co2 c3 False
                        by (simp add: utf8_decode.simps(2) scalar_replacement)
                    next
                      case co3: True
                      from n1 n2 n3 True c1 ok c2 co2 c3 co3 2(7)
                      have "scalar_units (utf8_decode r3)" by simp
                      from scalar_four [OF _ _ ok co2 co3 this] True
                      show ?thesis using n1 n2 n3 True c1 ok c2 co2 c3 co3
                        by (simp add: utf8_decode.simps(2))
                    qed
                  qed
                qed
              qed
            qed
          qed
        qed
      qed
    qed
  qed
qed

lemma div_64_of_4096: "(a * 4096 + r) div 64 = a * 64 + r div (64::nat)"
proof -
  have "a * 4096 + r = (a * 64) * 64 + r" by simp
  then show ?thesis by (metis div_mult_self3 zero_neq_numeral)
qed

lemma div_4096_of_262144: "(a * 262144 + r) div 4096 = a * 64 + r div (4096::nat)"
proof -
  have "a * 262144 + r = (a * 64) * 4096 + r" by simp
  then show ?thesis by (metis div_mult_self3 zero_neq_numeral)
qed

lemma well_formed_encode_unit:
  assumes "u < 0xD800 \<or> (0xDFFF < u \<and> u < 0x10000)" and "well_formed_utf8 (utf8_encode us)"
  shows "well_formed_utf8 (utf8_encode (u # us))"
proof (cases "u < 0x80")
  case True
  with assms(2) show ?thesis by (simp add: encode_one wf_one)
next
  case n1: False
  show ?thesis
  proof (cases "u < 0x800")
    case True
    have "194 \<le> 192 + u div 64" using n1 by simp
    moreover have "192 + u div 64 \<le> 223" using True by simp
    moreover have "continuation (128 + u mod 64)" by (simp add: continuation_def)
    ultimately have "well_formed_utf8 ((192 + u div 64) # (128 + u mod 64) # utf8_encode us)"
      using assms(2) by (rule wf_two)
    then show ?thesis using n1 True by (simp add: utf8_encode.simps(2))
  next
    case n2: False
    then have ge: "0x800 \<le> u" by simp
    from assms(1) have ns: "u < 0xD800 \<or> 0xDFFF < u" by auto
    from assms(1) have lt: "u < 0x10000" by auto
    define a r where "a = u div 4096" and "r = u mod 4096"
    have u: "u = a * 4096 + r" and r: "r < 4096" by (simp_all add: a_def r_def)
    from u lt have a: "a < 16" by simp
    have "u div 64 = a * 64 + r div 64" unfolding u by (rule div_64_of_4096)
    moreover have rd: "r div 64 < 64" using r by simp
    ultimately have second: "u div 64 mod 64 = r div 64" by simp
    have l1: "224 \<le> 224 + a" by simp
    have l2: "224 + a \<le> 239" using a by simp
    have s: "second_byte_ok (224 + a) (128 + r div 64)"
    proof (cases "a = 0")
      case True
      with u ge have "2048 \<le> r" by simp
      then have "32 \<le> r div 64" by simp
      with True rd show ?thesis by (simp add: second_byte_ok_def)
    next
      case nz: False
      show ?thesis
      proof (cases "a = 13")
        case True
        with u r ns have "r < 2048" by simp
        then have "r div 64 < 32" by simp
        with True show ?thesis by (simp add: second_byte_ok_def)
      next
        case False
        with nz a rd show ?thesis by (simp add: second_byte_ok_def)
      qed
    qed
    have c: "continuation (128 + u mod 64)" by (simp add: continuation_def)
    from wf_three [OF l1 l2 s c assms(2)] show ?thesis
      using encode_unit_three [OF ge ns, of us] second by (simp add: a_def)
  qed
qed

lemma well_formed_encode_pair:
  assumes "0xD800 \<le> h" "h \<le> 0xDBFF" "0xDC00 \<le> l" "l \<le> 0xDFFF"
    and "well_formed_utf8 (utf8_encode us)"
  shows "well_formed_utf8 (utf8_encode (h # l # us))"
proof -
  define p q where "p = h - 0xD800" and "q = l - 0xDC00"
  with assms have p: "p < 1024" and q: "q < 1024" by simp_all
  define cp where "cp = 0x10000 + (h - 0xD800) * 0x400 + (l - 0xDC00)"
  then have cp: "cp = 65536 + p * 1024 + q" by (simp add: p_def q_def)
  have ge: "65536 \<le> cp" and lt: "cp < 1114112" using p q unfolding cp by simp_all
  define a r where "a = cp div 262144" and "r = cp mod 262144"
  have u: "cp = a * 262144 + r" and r: "r < 262144" by (simp_all add: a_def r_def)
  from u lt have a: "a < 5" by simp
  have "cp div 4096 = a * 64 + r div 4096" unfolding u by (rule div_4096_of_262144)
  moreover have rd: "r div 4096 < 64" using r by simp
  ultimately have second: "cp div 4096 mod 64 = r div 4096" by simp
  have l1: "240 \<le> 240 + a" by simp
  have l2: "240 + a \<le> 244" using a by simp
  have s: "second_byte_ok (240 + a) (128 + r div 4096)"
  proof (cases "a = 0")
    case True
    with u ge have "65536 \<le> r" by simp
    then have "16 \<le> r div 4096" by simp
    with True rd show ?thesis by (simp add: second_byte_ok_def)
  next
    case nz: False
    show ?thesis
    proof (cases "a = 4")
      case True
      with u lt have "r < 65536" by simp
      then have "r div 4096 < 16" by simp
      with True show ?thesis by (simp add: second_byte_ok_def)
    next
      case False
      with nz a rd show ?thesis by (simp add: second_byte_ok_def)
    qed
  qed
  have c2: "continuation (128 + cp div 64 mod 64)" by (simp add: continuation_def)
  have c3: "continuation (128 + cp mod 64)" by (simp add: continuation_def)
  from wf_four [OF l1 l2 s c2 c3 assms(5)] show ?thesis
    using encode_pair [OF assms(1-4) cp_def, of us] second by (simp add: a_def)
qed

lemma well_formed_encode: "scalar_units us \<Longrightarrow> well_formed_utf8 (utf8_encode us)"
proof (induction rule: scalar_units.induct)
  case su_empty
  show ?case by (simp add: wf_empty)
next
  case (su_unit u us)
  then show ?case by (simp add: well_formed_encode_unit)
next
  case (su_pair h l us)
  then show ?case by (simp add: well_formed_encode_pair)
qed

lemma encode_decode_iff: "utf8_encode (utf8_decode bs) = bs \<longleftrightarrow> well_formed_utf8 bs"
proof
  assume "utf8_encode (utf8_decode bs) = bs"
  with well_formed_encode [OF scalar_decode, of bs] show "well_formed_utf8 bs" by simp
next
  assume "well_formed_utf8 bs"
  then show "utf8_encode (utf8_decode bs) = bs" by (rule encode_decode_well_formed)
qed

text \<open>
  The exceptions of reading and writing.
\<close>

lemma updateConfigFile_errors:
  "fs path = None \<Longrightarrow> updateConfigFile shw fs path edits = Inl ReadError"
  "fs path = Some node \<Longrightarrow> \<not> may_read node \<Longrightarrow> updateConfigFile shw fs path edits = Inl ReadError"
  "fs path = Some node \<Longrightarrow> may_read node \<Longrightarrow> \<not> may_write node \<Longrightarrow>
     updateConfigFile shw fs path edits = Inl WriteError"
  by (simp_all add: updateConfigFile_def Let_def)

section \<open>The empty batch\<close>

text \<open>
  Claim C7, as stated, fails: the bytes are decoded when the file is read and encoded
  when it is written. The byte \<open>FF\<close> is not UTF-8; it is read as \<open>U+FFFD\<close> and
  written as the three bytes \<open>EF BF BD\<close>.
\<close>

theorem ill_formed_bytes_are_rewritten:
  "updateConfigFile number_to_string
     (Map.empty(str ''chain.toml'' \<mapsto>
        \<lparr>file_bytes = [0x61, 0x3D, 0xFF, 0x0A], may_read = True, may_write = True\<rparr>))
     (str ''chain.toml'') [] =
   Inr (Map.empty(str ''chain.toml'' \<mapsto>
        \<lparr>file_bytes = [0x61, 0x3D, 0xEF, 0xBF, 0xBD, 0x0A], may_read = True, may_write = True\<rparr>))"
  by (simp add: updateConfigFile_def updateConfigContent_empty utf8_decode.simps(2)
      utf8_encode.simps(2))

text \<open>
  Claim C7, amended: for a file that may be read and written, the empty batch writes the
  encoding of the decoded bytes, and the file system is left as it was, byte for byte,
  exactly when the bytes of the file are well-formed UTF-8. The text itself, once
  decoded, passes through the split into lines and the join unchanged.
\<close>

theorem empty_batch_round_trip:
  assumes "fs path = Some node" and "may_read node" and "may_write node"
  shows "updateConfigContent shw (utf8_decode (file_bytes node)) [] = utf8_decode (file_bytes node) \<and>
         updateConfigFile shw fs path [] =
           Inr (fs(path \<mapsto> node\<lparr>file_bytes := utf8_encode (utf8_decode (file_bytes node))\<rparr>)) \<and>
         (updateConfigFile shw fs path [] = Inr fs \<longleftrightarrow> well_formed_utf8 (file_bytes node))"
proof -
  let ?out = "utf8_encode (utf8_decode (file_bytes node))"
  have res: "updateConfigFile shw fs path [] = Inr (fs(path \<mapsto> node\<lparr>file_bytes := ?out\<rparr>))"
    using assms by (simp add: updateConfigFile_def updateConfigContent_empty)
  have "fs(path \<mapsto> node\<lparr>file_bytes := ?out\<rparr>) = fs \<longleftrightarrow> ?out = file_bytes node"
  proof
    assume "fs(path \<mapsto> node\<lparr>file_bytes := ?out\<rparr>) = fs"
    then have "(fs(path \<mapsto> node\<lparr>file_bytes := ?out\<rparr>)) path = fs path" by simp
    with assms(1) have "node\<lparr>file_bytes := ?out\<rparr> = node" by simp
    then have "file_bytes (node\<lparr>file_bytes := ?out\<rparr>) = file_bytes node" by simp
    then show "?out = file_bytes node" by simp
  next
    assume "?out = file_bytes node"
    then have "node\<lparr>file_bytes := ?out\<rparr> = node" by simp
    with assms(1) show "fs(path \<mapsto> node\<lparr>file_bytes := ?out\<rparr>) = fs"
      by (simp add: map_upd_triv)
  qed
  with res have "updateConfigFile shw fs path [] = Inr fs \<longleftrightarrow> well_formed_utf8 (file_bytes node)"
    by (simp add: encode_decode_iff)
  with res show ?thesis by (simp add: updateConfigContent_empty)
qed

theorem empty_batch_round_trip_witness:
  "well_formed_utf8 [0x66, 0x3D, 0xC3, 0xA9, 0xE2, 0x82, 0xAC, 0xF0, 0x9F, 0x98, 0x80, 0x0A] \<and>
   updateConfigFile number_to_string
     (Map.empty(str ''chain.toml'' \<mapsto>
        \<lparr>file_bytes = [0x66, 0x3D, 0xC3, 0xA9, 0xE2, 0x82, 0xAC, 0xF0, 0x9F, 0x98, 0x80, 0x0A],
         may_read = True, may_write = True\<rparr>))
     (str ''chain.toml'') [] =
   Inr (Map.empty(str ''chain.toml'' \<mapsto>
        \<lparr>file_bytes = [0x66, 0x3D, 0xC3, 0xA9, 0xE2, 0x82, 0xAC, 0xF0, 0x9F, 0x98, 0x80, 0x0A],
         may_read = True, may_write = True\<rparr>))"
proof -
  let ?node = "\<lparr>file_bytes = [0x66, 0x3D, 0xC3, 0xA9, 0xE2, 0x82, 0xAC, 0xF0, 0x9F, 0x98, 0x80, 0x0A],
                 may_read = True, may_write = True\<rparr>"
  let ?fs = "Map.empty(str ''chain.toml'' \<mapsto> ?node)"
  have wf: "well_formed_utf8 [0x66, 0x3D, 0xC3, 0xA9, 0xE2, 0x82, 0xAC, 0xF0, 0x9F, 0x98, 0x80, 0x0A]"
    by (rule wf_one, simp, rule wf_one, simp,
        rule wf_two, simp, simp, simp add: continuation_def,
        rule wf_three, simp, simp, simp add: second_byte_ok_def, simp add: continuation_def,
        rule wf_four, simp, simp, simp add: second_byte_ok_def, simp add: continuation_def,
        simp add: continuation_def,
        rule wf_one, simp, rule wf_empty)
  have h1: "?fs (str ''chain.toml'') = Some ?node" by simp
  have h2: "may_read ?node" and h3: "may_write ?node" by simp_all
  have h4: "well_formed_utf8 (file_bytes ?node)" using wf by simp
  from empty_batch_round_trip
         [where fs = ?fs and path = "str ''chain.toml''" and node = ?node and shw = number_to_string,
          OF h1 h2 h3] h4
  have "updateConfigFile number_to_string ?fs (str ''chain.toml'') [] = Inr ?fs" by blast
  with wf show ?thesis by simp
qed

end
